theory Spec2Isabelle
  imports Complex_Main
begin

section \<open>Numbers\<close>

text \<open>
  The arrays of \<^verbatim>\<open>vertical.py\<close> hold IEEE floating-point numbers. They are modelled
  as exact reals together with the three non-finite values, so that a division by zero
  produces what numpy produces (a warning and an infinity or a NaN, never an exception).
  Rounding, overflow and the sign of zero are not modelled: arithmetic on finite values
  is exact.
\<close>

datatype fl = Fin real | PInf | NInf | NaN

fun fneg :: "fl \<Rightarrow> fl" where
  "fneg (Fin a) = Fin (- a)"
| "fneg PInf = NInf"
| "fneg NInf = PInf"
| "fneg NaN = NaN"

fun fadd :: "fl \<Rightarrow> fl \<Rightarrow> fl" where
  "fadd NaN _ = NaN"
| "fadd _ NaN = NaN"
| "fadd (Fin a) (Fin b) = Fin (a + b)"
| "fadd PInf NInf = NaN"
| "fadd NInf PInf = NaN"
| "fadd PInf _ = PInf"
| "fadd _ PInf = PInf"
| "fadd NInf _ = NInf"
| "fadd _ NInf = NInf"

definition fsub :: "fl \<Rightarrow> fl \<Rightarrow> fl" where
  "fsub a b = fadd a (fneg b)"

fun fmul :: "fl \<Rightarrow> fl \<Rightarrow> fl" where
  "fmul NaN _ = NaN"
| "fmul _ NaN = NaN"
| "fmul (Fin a) (Fin b) = Fin (a * b)"
| "fmul PInf (Fin b) = (if b = 0 then NaN else if 0 < b then PInf else NInf)"
| "fmul NInf (Fin b) = (if b = 0 then NaN else if 0 < b then NInf else PInf)"
| "fmul (Fin a) PInf = (if a = 0 then NaN else if 0 < a then PInf else NInf)"
| "fmul (Fin a) NInf = (if a = 0 then NaN else if 0 < a then NInf else PInf)"
| "fmul PInf PInf = PInf"
| "fmul PInf NInf = NInf"
| "fmul NInf PInf = NInf"
| "fmul NInf NInf = PInf"

fun fdiv :: "fl \<Rightarrow> fl \<Rightarrow> fl" where
  "fdiv NaN _ = NaN"
| "fdiv _ NaN = NaN"
| "fdiv (Fin a) (Fin b) =
     (if b \<noteq> 0 then Fin (a / b)
      else if a = 0 then NaN else if 0 < a then PInf else NInf)"
| "fdiv (Fin a) PInf = Fin 0"
| "fdiv (Fin a) NInf = Fin 0"
| "fdiv PInf (Fin b) = (if 0 \<le> b then PInf else NInf)"
| "fdiv NInf (Fin b) = (if 0 \<le> b then NInf else PInf)"
| "fdiv PInf PInf = NaN"
| "fdiv PInf NInf = NaN"
| "fdiv NInf PInf = NaN"
| "fdiv NInf NInf = NaN"

text \<open>Comparisons: every comparison with a NaN is false.\<close>

fun flt :: "fl \<Rightarrow> fl \<Rightarrow> bool" where
  "flt NaN _ = False"
| "flt _ NaN = False"
| "flt (Fin a) (Fin b) = (a < b)"
| "flt (Fin a) PInf = True"
| "flt NInf (Fin b) = True"
| "flt NInf PInf = True"
| "flt PInf _ = False"
| "flt _ NInf = False"

definition feq :: "fl \<Rightarrow> fl \<Rightarrow> bool" where
  "feq a b \<longleftrightarrow> a \<noteq> NaN \<and> a = b"

definition fge :: "fl \<Rightarrow> fl \<Rightarrow> bool" where
  "fge a b \<longleftrightarrow> flt b a \<or> feq a b"

text \<open>\<^verbatim>\<open>ndarray.sum()\<close>: the sum of an empty array is 0.\<close>

definition fsum :: "fl list \<Rightarrow> fl" where
  "fsum xs = foldr fadd xs (Fin 0)"


section \<open>Tables\<close>

datatype error = ValueError | KeyError | IndexError | AttributeError | TypeError

text \<open>
  A \<^verbatim>\<open>pandas.DataFrame\<close>: the row labels and the named columns, in column order.
\<close>

record table =
  index :: "nat list"
  columns :: "(string \<times> fl list) list"

definition has_column :: "table \<Rightarrow> string \<Rightarrow> bool" where
  "has_column df key \<longleftrightarrow> key \<in> fst ` set (columns df)"

definition nrows :: "table \<Rightarrow> nat" where
  "nrows df = length (index df)"

text \<open>\<^verbatim>\<open>df[key] = vals\<close>: replaces the column where it stands, or appends it.\<close>

definition set_column :: "string \<Rightarrow> fl list \<Rightarrow> (string \<times> fl list) list \<Rightarrow> (string \<times> fl list) list" where
  "set_column key vals cols =
     (if key \<in> fst ` set cols
      then map (\<lambda>(k, v). if k = key then (k, vals) else (k, v)) cols
      else cols @ [(key, vals)])"

text \<open>\<^verbatim>\<open>df[::-1]\<close>: the same table with its rows in reversed order.\<close>

definition reverse_rows :: "table \<Rightarrow> table" where
  "reverse_rows df =
     \<lparr>index = rev (index df), columns = map (\<lambda>(k, v). (k, rev v)) (columns df)\<rparr>"

section \<open>add\_pressure\<close>

text \<open>
  The flag \<^verbatim>\<open>inplace\<close> only decides whether the caller's table is the one updated;
  the table that is returned is the same either way.
\<close>

definition add_pressure :: "table \<Rightarrow> fl \<Rightarrow> fl \<Rightarrow> string \<Rightarrow> string \<Rightarrow> error + table" where
  "add_pressure va_df ptop psfc sigmakey pressurekey =
     (case map_of (columns va_df) sigmakey of
        None \<Rightarrow> Inl KeyError
      | Some sigma \<Rightarrow>
          Inr (va_df\<lparr>columns :=
                 set_column pressurekey
                   (map (\<lambda>s. fadd (fmul s (fsub psfc ptop)) ptop) sigma)
                   (columns va_df)\<rparr>))"

section \<open>Interpolation\<close>

text \<open>
  Modelled from the spec: \<^verbatim>\<open>numpy.interp(x, xp, fp, left=0)\<close>, a library function that
  is not part of the repository. It is the piecewise-linear interpolant through the
  points \<open>(xp, fp)\<close>; below the first sample point the result is \<open>left\<close>, above the
  last one it is the last sample value (no clamp is defined there), and a NaN target
  stays a NaN. The sample points are not checked for being increasing. An empty \<open>xp\<close>
  and an \<open>fp\<close> of another length are rejected.
\<close>

definition np_interp1 :: "fl list \<Rightarrow> fl list \<Rightarrow> fl \<Rightarrow> fl \<Rightarrow> fl" where
  "np_interp1 xp fp left x =
     (if length xp = 1 then
        (if flt x (hd xp) then left else if flt (hd xp) x then last fp else hd fp)
      else if x = NaN then x
      else if flt (last xp) x then last fp
      else if flt x (hd xp) then left
      else
        (let j = length (takeWhile (\<lambda>a. fge x a) (tl xp)) in
         if j = length xp - 1 then fp ! j
         else if feq (xp ! j) x then fp ! j
         else
           (let slope = fdiv (fsub (fp ! (j + 1)) (fp ! j)) (fsub (xp ! (j + 1)) (xp ! j))
            in fadd (fmul slope (fsub x (xp ! j))) (fp ! j))))"

definition np_interp :: "fl list \<Rightarrow> fl list \<Rightarrow> fl list \<Rightarrow> fl \<Rightarrow> error + fl list" where
  "np_interp x xp fp left =
     (if xp = [] then Inl ValueError
      else if length fp \<noteq> length xp then Inl ValueError
      else Inr (map (np_interp1 xp fp left) x))"

section \<open>interp\_va\<close>

text \<open>The normalized source coordinate \<^verbatim>\<open>(Pressure - vgtop) / (psfc - vgtop)\<close>.\<close>

definition norm_coord :: "fl list \<Rightarrow> fl \<Rightarrow> fl \<Rightarrow> fl list" where
  "norm_coord pressure vgtop psfc =
     map (\<lambda>p. fdiv (fsub p vgtop) (fsub psfc vgtop)) pressure"

text \<open>Line 90: the interpolated series of one column, before it is renormalized.\<close>

definition interp_column :: "bool \<Rightarrow> fl list \<Rightarrow> fl list \<Rightarrow> fl list \<Rightarrow> error + fl list" where
  "interp_column invert x xp fp = np_interp x xp (if invert then rev fp else fp) (Fin 0)"

text \<open>Line 92: \<^verbatim>\<open>out[key] /= out[key].sum()\<close>.\<close>

definition renormalize :: "fl list \<Rightarrow> fl list" where
  "renormalize col = map (\<lambda>v. fdiv v (fsum col)) col"

fun interp_columns ::
  "(string \<times> fl list) list \<Rightarrow> bool \<Rightarrow> fl list \<Rightarrow> fl list \<Rightarrow> string list
     \<Rightarrow> error + (string \<times> fl list) list" where
  "interp_columns [] invert x xp metakeys = Inr []"
| "interp_columns ((key, fp) # rest) invert x xp metakeys =
     (case interp_column invert x xp fp of
        Inl e \<Rightarrow> Inl e
      | Inr col \<Rightarrow>
          (case interp_columns rest invert x xp metakeys of
             Inl e \<Rightarrow> Inl e
           | Inr out \<Rightarrow>
               Inr ((key, if key \<notin> set metakeys then renormalize col else col) # out)))"

text \<open>Lines 75 and 76: the default of \<^verbatim>\<open>metakeys\<close>.\<close>

definition default_metakeys :: "string list option \<Rightarrow> string list" where
  "default_metakeys m = (case m of None \<Rightarrow> [''Sigma'', ''Alt'', ''L''] | Some k \<Rightarrow> k)"

definition interp_va :: "table \<Rightarrow> fl list \<Rightarrow> fl \<Rightarrow> fl \<Rightarrow> string list option \<Rightarrow> error + table" where
  "interp_va va_df vglvls vgtop psfc metakeys_arg =
     (let x = drop 1 vglvls;
          metakeys = default_metakeys metakeys_arg
      in case map_of (columns va_df) ''Pressure'' of
           None \<Rightarrow> Inl AttributeError
         | Some pressure \<Rightarrow>
             (let xp0 = norm_coord pressure vgtop psfc in
              if xp0 = [] then Inl IndexError
              else
                (let invert = flt (last xp0) (hd xp0);
                     xp = (if invert then rev xp0 else xp0)
                 in case interp_columns (columns va_df) invert x xp metakeys of
                      Inl e \<Rightarrow> Inl e
                    | Inr out \<Rightarrow>
                        Inr \<lparr>index = [0..<length x],
                             columns = set_column ''Sigma'' x out\<rparr>)))"

text \<open>
  The value of \<^verbatim>\<open>out[key]\<close> after line 90, before the renormalization of line 92.
\<close>

definition interp_va_raw :: "table \<Rightarrow> fl list \<Rightarrow> fl \<Rightarrow> fl \<Rightarrow> string \<Rightarrow> error + fl list" where
  "interp_va_raw va_df vglvls vgtop psfc key =
     (case map_of (columns va_df) ''Pressure'' of
        None \<Rightarrow> Inl AttributeError
      | Some pressure \<Rightarrow>
          (let xp0 = norm_coord pressure vgtop psfc in
           if xp0 = [] then Inl IndexError
           else
             (let invert = flt (last xp0) (hd xp0);
                  xp = (if invert then rev xp0 else xp0)
              in case map_of (columns va_df) key of
                   None \<Rightarrow> Inl KeyError
                 | Some fp \<Rightarrow> interp_column invert (drop 1 vglvls) xp fp)))"

section \<open>Gridded files\<close>

text \<open>
  A gridded file with IOAPI structure: every data variable is an array over
  (TSTEP, LAY, ROW, COL), held in a store of arrays and named by its address, so that
  two files can share an array. \<open>nxt\<close> is the first address not yet allocated.
\<close>

type_synonym arr = "fl list list list list"

record var =
  dimensions :: "string list"
  data :: nat

record store =
  heap :: "nat \<Rightarrow> arr"
  nxt :: nat

record ncfile =
  variables :: "(string \<times> var) list"
  VGLVLS :: "fl list option"
  NLAYS :: "nat option"

definition alloc_arrays :: "arr list \<Rightarrow> store \<Rightarrow> store" where
  "alloc_arrays as st =
     \<lparr>heap = (\<lambda>a. if nxt st \<le> a \<and> a < nxt st + length as
                   then as ! (a - nxt st) else heap st a),
      nxt = nxt st + length as\<rparr>"

definition renumber :: "(string \<times> var) list \<Rightarrow> nat \<Rightarrow> (string \<times> var) list" where
  "renumber vs base =
     map (\<lambda>((k, v), i). (k, v\<lparr>data := base + i\<rparr>)) (zip vs [0..<length vs])"

text \<open>
  Modelled from the spec: \<^verbatim>\<open>field.subset(variable_names)\<close> of the gridded-file
  library, which is not part of the repository: the field restricted to the named
  variables, sharing the underlying storage.
\<close>

definition subset_variables :: "ncfile \<Rightarrow> string list \<Rightarrow> ncfile" where
  "subset_variables f varkeys = f\<lparr>variables := filter (\<lambda>(k, v). k \<in> set varkeys) (variables f)\<rparr>"

text \<open>
  Modelled from the spec: \<^verbatim>\<open>field.slice(LAY=indices)\<close> of the gridded-file library,
  which is not part of the repository: a field whose vertical dimension is remapped to
  the given (possibly repeated) index list. The result is a new field with arrays of
  its own; an index beyond the layers of a variable is an error.
\<close>

definition take_layers :: "nat list \<Rightarrow> arr \<Rightarrow> error + arr" where
  "take_layers idxs a =
     (if list_all (\<lambda>ls. list_all (\<lambda>i. i < length ls) idxs) a
      then Inr (map (\<lambda>ls. map (\<lambda>i. ls ! i) idxs) a)
      else Inl IndexError)"

fun slice_arrays :: "(string \<times> var) list \<Rightarrow> nat list \<Rightarrow> (nat \<Rightarrow> arr) \<Rightarrow> error + arr list" where
  "slice_arrays [] idxs h = Inr []"
| "slice_arrays ((k, v) # vs) idxs h =
     (case (if ''LAY'' \<in> set (dimensions v) then take_layers idxs (h (data v))
            else Inr (h (data v))) of
        Inl e \<Rightarrow> Inl e
      | Inr a \<Rightarrow>
          (case slice_arrays vs idxs h of
             Inl e \<Rightarrow> Inl e
           | Inr as \<Rightarrow> Inr (a # as)))"

definition slice_LAY :: "ncfile \<Rightarrow> nat list \<Rightarrow> store \<Rightarrow> (error + ncfile) \<times> store" where
  "slice_LAY f idxs st =
     (case slice_arrays (variables f) idxs (heap st) of
        Inl e \<Rightarrow> (Inl e, st)
      | Inr as \<Rightarrow>
          (Inr (f\<lparr>variables := renumber (variables f) (nxt st)\<rparr>), alloc_arrays as st))"

text \<open>
  Modelled from the spec: \<^verbatim>\<open>field.stack(other_fields, axis)\<close> of the gridded-file
  library, which is not part of the repository: the fields concatenated along the
  time-step axis into a new field, which keeps the attributes of the first one.
\<close>

definition stack :: "ncfile \<Rightarrow> ncfile list \<Rightarrow> store \<Rightarrow> ncfile \<times> store" where
  "stack f others st =
     (let fs = f # others;
          allvars = concat (map variables fs);
          names = remdups (map fst allvars);
          arrays = map (\<lambda>k. concat (map (\<lambda>g. case map_of (variables g) k of
                                                None \<Rightarrow> []
                                              | Some v \<Rightarrow> heap st (data v)) fs)) names;
          vars = map (\<lambda>k. (k, \<lparr>dimensions = (case map_of allvars k of
                                                None \<Rightarrow> []
                                              | Some v \<Rightarrow> dimensions v),
                               data = 0\<rparr>)) names
      in (f\<lparr>variables := renumber vars (nxt st)\<rparr>, alloc_arrays arrays st))"

section \<open>make3d\<close>

text \<open>
  Line 167: \<^verbatim>\<open>var[:] *= layerfractions[None, :, None, None]\<close>, an in-place product
  with broadcasting. The layer axis of the variable must have the length of the
  fraction vector, unless that vector has length 1.
\<close>

definition scale_arr :: "fl list \<Rightarrow> arr \<Rightarrow> error + arr" where
  "scale_arr layerfractions a =
     (if list_all (\<lambda>ls. length ls = length layerfractions) a
      then Inr (map (\<lambda>ls. map (\<lambda>(l, f). map (map (\<lambda>v. fmul v f)) l)
                              (zip ls layerfractions)) a)
      else if length layerfractions = 1
      then Inr (map (map (map (map (\<lambda>v. fmul v (hd layerfractions))))) a)
      else Inl ValueError)"

fun scale_vars :: "(string \<times> var) list \<Rightarrow> fl list \<Rightarrow> store \<Rightarrow> error option \<times> store" where
  "scale_vars [] layerfractions st = (None, st)"
| "scale_vars ((key, v) # vs) layerfractions st =
     (if key \<noteq> ''TFLAG'' then
        (case scale_arr layerfractions (heap st (data v)) of
           Inl e \<Rightarrow> (Some e, st)
         | Inr a \<Rightarrow> scale_vars vs layerfractions (st\<lparr>heap := (heap st)(data v := a)\<rparr>))
      else scale_vars vs layerfractions st)"

text \<open>
  \<^verbatim>\<open>vglvls.astype('f')\<close> rounds the edges to 32-bit floats; rounding is not modelled,
  so the stored edges are the given ones.
\<close>

definition make3d :: "ncfile \<Rightarrow> fl list \<Rightarrow> fl list \<Rightarrow> store \<Rightarrow> (error + ncfile) \<times> store" where
  "make3d infile layerfractions vglvls st =
     (let nz = length layerfractions in
      case slice_LAY infile (replicate nz 0) st of
        (Inl e, st1) \<Rightarrow> (Inl e, st1)
      | (Inr outfile, st1) \<Rightarrow>
          (case scale_vars (variables outfile) layerfractions st1 of
             (Some e, st2) \<Rightarrow> (Inl e, st2)
           | (None, st2) \<Rightarrow>
               (Inr (outfile\<lparr>VGLVLS := Some vglvls, NLAYS := Some nz\<rparr>), st2)))"

section \<open>Vertical\<close>

record vertical =
  pressurekey :: string
  sigmakey :: string
  outvglvls :: "fl list"
  outvgtop :: fl
  psfc :: fl
  indf :: table
  metakeys :: "string list"
  outdf :: table

text \<open>
  Lines 234 and 235: the indicator column \<^verbatim>\<open>LAYER1\<close>. The table comes from
  \<open>interp_va\<close>, whose row labels are \<open>0, 1, ...\<close>, so the label 0 is the first
  row; on a table without rows the assignment to the label 0 adds a row, whose other
  entries are NaN.
\<close>

definition layer1 :: "table \<Rightarrow> table" where
  "layer1 df =
     (let cols = set_column ''LAYER1'' (replicate (nrows df) (Fin 0)) (columns df) in
      if nrows df = 0
      then \<lparr>index = [0],
            columns = map (\<lambda>(k, v). (k, if k = ''LAYER1'' then [Fin 1] else [NaN])) cols\<rparr>
      else \<lparr>index = index df,
            columns = map (\<lambda>(k, v). (k, if k = ''LAYER1'' then v[0 := Fin 1] else v)) cols\<rparr>)"

text \<open>
  \<^verbatim>\<open>outdf.drop(metakeys, axis=1).values.sum(1)\<close> at row \<open>i\<close>: the sum of the
  entries of the columns that are not meta columns.
\<close>

definition row_sum :: "(string \<times> fl list) list \<Rightarrow> string list \<Rightarrow> nat \<Rightarrow> fl" where
  "row_sum cols mk i = fsum (map (\<lambda>(k, v). v ! i) (filter (\<lambda>(k, v). k \<notin> set mk) cols))"

definition layerused :: "table \<Rightarrow> string list \<Rightarrow> bool \<Rightarrow> error + bool list" where
  "layerused df mk prune =
     (if \<not> list_all (has_column df) mk then Inl KeyError
      else
        (let used = map (\<lambda>i. flt (Fin 0) (row_sum (columns df) mk i)) [0..<nrows df] in
         if used = [] then Inl IndexError
         else Inr (if \<not> prune then replicate (length used) True else used[0 := True])))"

text \<open>\<^verbatim>\<open>df.loc[layerused]\<close>: the rows where the mask is true, with their labels.\<close>

definition select_rows :: "bool list \<Rightarrow> table \<Rightarrow> table" where
  "select_rows keep df =
     \<lparr>index = map fst (filter snd (zip (index df) keep)),
      columns = map (\<lambda>(k, v). (k, map fst (filter snd (zip v keep)))) (columns df)\<rparr>"

text \<open>
  \<open>Vertical.__init__\<close>; \<open>csv\<close> is the table that \<^verbatim>\<open>pd.read_csv\<close> returned.
\<close>

definition Vertical_init ::
  "table \<Rightarrow> fl list \<Rightarrow> fl \<Rightarrow> string \<Rightarrow> string \<Rightarrow> fl \<Rightarrow> string list option \<Rightarrow> fl \<Rightarrow> bool
     \<Rightarrow> error + vertical" where
  "Vertical_init csv outvglvls_arg outvgtop_arg pressurekey_arg sigmakey_arg csvvgtop
       metakeys_arg psfc_arg prune =
     (let mk = (case metakeys_arg of
                  None \<Rightarrow> [sigmakey_arg, pressurekey_arg, ''Alt'', ''L'']
                | Some m \<Rightarrow> m)
      in case (if \<not> has_column csv pressurekey_arg
               then add_pressure csv csvvgtop psfc_arg sigmakey_arg pressurekey_arg
               else Inr csv) of
           Inl e \<Rightarrow> Inl e
         | Inr df \<Rightarrow>
             (case interp_va df (drop 1 outvglvls_arg) outvgtop_arg psfc_arg (Some mk) of
                Inl e \<Rightarrow> Inl e
              | Inr out \<Rightarrow>
                  (case layerused (layer1 out) mk prune of
                     Inl e \<Rightarrow> Inl e
                   | Inr used \<Rightarrow>
                       Inr \<lparr>pressurekey = pressurekey_arg, sigmakey = sigmakey_arg,
                            outvglvls = outvglvls_arg, outvgtop = outvgtop_arg,
                            psfc = psfc_arg, indf = df, metakeys = mk,
                            outdf = select_rows used (layer1 out)\<rparr>)))"

section \<open>Vertical.allocate\<close>

text \<open>
  The argument \<^verbatim>\<open>alloc_keys\<close>: a sector name, or a dictionary from sector names to
  variable lists or \<^verbatim>\<open>None\<close>, in insertion order.
\<close>

datatype alloc_arg = Sector string | Mapping "(string \<times> string list option) list"

definition all_keys :: "ncfile \<Rightarrow> string list" where
  "all_keys f = map fst (filter (\<lambda>(k, v). ''LAY'' \<in> set (dimensions v)) (variables f))"

fun assigned_keys :: "(string \<times> string list option) list \<Rightarrow> string list" where
  "assigned_keys [] = []"
| "assigned_keys ((sector, None) # rest) = assigned_keys rest"
| "assigned_keys ((sector, Some varkeys) # rest) = varkeys @ assigned_keys rest"

fun isnone :: "(string \<times> string list option) list \<Rightarrow> string list" where
  "isnone [] = []"
| "isnone ((sector, None) # rest) = sector # isnone rest"
| "isnone ((sector, Some varkeys) # rest) = isnone rest"

text \<open>
  \<^verbatim>\<open>list(set(all_keys).difference(assigned_keys))\<close>: Python fixes no order for the
  list of a set; the model lists the elements in the order of the file.
\<close>

definition unassigned_keys :: "ncfile \<Rightarrow> (string \<times> string list option) list \<Rightarrow> string list" where
  "unassigned_keys f m = remdups (filter (\<lambda>k. k \<notin> set (assigned_keys m)) (all_keys f))"

text \<open>\<^verbatim>\<open>d[key] = value\<close> on a key of the dictionary: the entry keeps its place.\<close>

definition dict_set ::
  "string \<Rightarrow> string list \<Rightarrow> (string \<times> string list option) list
     \<Rightarrow> (string \<times> string list option) list" where
  "dict_set key val m = map (\<lambda>(k, x). if k = key then (k, Some val) else (k, x)) m"

text \<open>
  Lines 297 to 302: one expanded field for each sector. The column of the sector in the
  resident profile is used as the array of its values.
\<close>

fun sector_files ::
  "vertical \<Rightarrow> ncfile \<Rightarrow> (string \<times> string list option) list \<Rightarrow> store
     \<Rightarrow> (error + ncfile list) \<times> store" where
  "sector_files self infile [] st = (Inr [], st)"
| "sector_files self infile ((sector, varkeys) # rest) st =
     (case map_of (columns (outdf self)) sector of
        None \<Rightarrow> (Inl KeyError, st)
      | Some layerfractions \<Rightarrow>
          (case varkeys of
             None \<Rightarrow> (Inl TypeError, st)
           | Some vk \<Rightarrow>
               (case make3d (subset_variables infile vk) layerfractions (outvglvls self) st of
                  (Inl e, st1) \<Rightarrow> (Inl e, st1)
                | (Inr sectorfile, st1) \<Rightarrow>
                    (case sector_files self infile rest st1 of
                       (Inl e, st2) \<Rightarrow> (Inl e, st2)
                     | (Inr sfs, st2) \<Rightarrow> (Inr (sectorfile # sfs), st2)))))"

text \<open>Lines 270 and 271: a sector name stands for a dictionary with that sector alone.\<close>

definition as_mapping :: "alloc_arg \<Rightarrow> (string \<times> string list option) list" where
  "as_mapping arg = (case arg of Sector s \<Rightarrow> [(s, None)] | Mapping m \<Rightarrow> m)"

text \<open>
  The caller's object after the call: a dictionary that was passed is the one that
  \<open>allocate\<close> has updated, a name that was passed is left as it is.
\<close>

definition caller_view :: "alloc_arg \<Rightarrow> (string \<times> string list option) list \<Rightarrow> alloc_arg" where
  "caller_view arg m = (case arg of Sector s \<Rightarrow> Sector s | Mapping _ \<Rightarrow> Mapping m)"

text \<open>Lines 293 and 294.\<close>

definition assign_default ::
  "ncfile \<Rightarrow> (string \<times> string list option) list \<Rightarrow> (string \<times> string list option) list" where
  "assign_default infile alloc_keys =
     (if length (isnone alloc_keys) = 1
      then dict_set (hd (isnone alloc_keys)) (unassigned_keys infile alloc_keys) alloc_keys
      else alloc_keys)"

text \<open>
  \<open>Vertical.allocate\<close> on an open file, without \<^verbatim>\<open>outpath\<close>. The result is what
  the call returns or raises, the caller's \<^verbatim>\<open>alloc_keys\<close> object after the call,
  and the store after the call.
\<close>

definition allocate ::
  "vertical \<Rightarrow> ncfile \<Rightarrow> alloc_arg \<Rightarrow> store \<Rightarrow> (error + ncfile) \<times> alloc_arg \<times> store" where
  "allocate self infile arg st =
     (let alloc_keys = as_mapping arg in
      if length (isnone alloc_keys) > 1 then (Inl ValueError, arg, st)
      else
        (let alloc_keys' = assign_default infile alloc_keys in
         case sector_files self infile alloc_keys' st of
           (Inl e, st1) \<Rightarrow> (Inl e, caller_view arg alloc_keys', st1)
         | (Inr sfs, st1) \<Rightarrow>
             (case sfs of
                [] \<Rightarrow> (Inl IndexError, caller_view arg alloc_keys', st1)
              | sf # rest \<Rightarrow>
                  (case stack sf rest st1 of
                     (outfile, st2) \<Rightarrow> (Inr outfile, caller_view arg alloc_keys', st2)))))"

text \<open>A property of every entry of an array.\<close>

definition arr_all :: "(fl \<Rightarrow> bool) \<Rightarrow> arr \<Rightarrow> bool" where
  "arr_all P a = list_all (list_all (list_all (list_all P))) a"

section \<open>Example data\<close>

text \<open>
  A table stored bottom-up (pressure increasing with the row) with one sector that puts
  all its weight at the surface, and a sector without any weight.
\<close>

definition ex_table :: table where
  "ex_table =
     \<lparr>index = [0, 1],
      columns = [(''Pressure'', [Fin 5000, Fin 101325]),
                 (''Sigma'', [Fin 0, Fin 1]),
                 (''SURF'', [Fin 0, Fin 1]),
                 (''NONE'', [Fin 0, Fin 0])]\<rparr>"

text \<open>
  A file with one time step, one layer and one row: the time stamp, a variable with one
  cell and a variable with two cells.
\<close>

definition ex_store :: store where
  "ex_store =
     \<lparr>heap = (\<lambda>_. [])(0 := [[[[Fin 2019001, Fin 0]]]],
                        1 := [[[[Fin 10]]]],
                        2 := [[[[Fin 4, Fin 6]]]]),
      nxt = 3\<rparr>"

definition ex_file :: ncfile where
  "ex_file =
     \<lparr>variables =
        [(''TFLAG'', \<lparr>dimensions = [''TSTEP'', ''VAR'', ''DATE-TIME''], data = 0\<rparr>),
         (''NOX'', \<lparr>dimensions = [''TSTEP'', ''LAY'', ''ROW'', ''COL''], data = 1\<rparr>),
         (''CO'', \<lparr>dimensions = [''TSTEP'', ''LAY'', ''ROW'', ''COL''], data = 2\<rparr>)],
      VGLVLS = Some [Fin 1, Fin 0],
      NLAYS = Some 1\<rparr>"

text \<open>A table with a sector of mixed sign.\<close>

definition ex_mixed :: table where
  "ex_mixed =
     \<lparr>index = [0, 1],
      columns = [(''Pressure'', [Fin 5000, Fin 101325]),
                 (''Sigma'', [Fin 0, Fin 1]),
                 (''MIX'', [Fin (- 1), Fin 3])]\<rparr>"

text \<open>
  An allocation table stored bottom-up without a pressure column, the allocator built
  from it for the grid edges 1, 0.9, 0.5, 0, and a sector assignment with a default
  sector.
\<close>

definition ex_csv :: table where
  "ex_csv =
     \<lparr>index = [0, 1, 2],
      columns = [(''L'', [Fin 1, Fin 2, Fin 3]),
                 (''Alt'', [Fin 100, Fin 1000, Fin 10000]),
                 (''Sigma'', [Fin 0.9, Fin 0.5, Fin 0]),
                 (''onroad'', [Fin 0.2, Fin 0.8, Fin 0]),
                 (''other'', [Fin 0.5, Fin 0.5, Fin 0])]\<rparr>"

definition ex_outdf :: table where
  "ex_outdf =
     \<lparr>index = [0],
      columns = [(''L'', [Fin 2]),
                 (''Alt'', [Fin 1000]),
                 (''Sigma'', [Fin 0.5]),
                 (''onroad'', [Fin 1]),
                 (''other'', [Fin 1]),
                 (''Pressure'', [Fin 53162.5]),
                 (''LAYER1'', [Fin 1])]\<rparr>"

definition ex_vertical :: vertical where
  "ex_vertical =
     \<lparr>pressurekey = ''Pressure'', sigmakey = ''Sigma'',
      outvglvls = [Fin 1, Fin 0.9, Fin 0.5, Fin 0], outvgtop = Fin 5000, psfc = Fin 101325,
      indf = ex_csv\<lparr>columns := columns ex_csv
                @ [(''Pressure'', [Fin 91692.5, Fin 53162.5, Fin 5000])]\<rparr>,
      metakeys = [''Sigma'', ''Pressure'', ''Alt'', ''L''],
      outdf = ex_outdf\<rparr>"

definition ex_keys :: "(string \<times> string list option) list" where
  "ex_keys = [(''onroad'', Some [''NOX'']), (''other'', None)]"

section \<open>Properties of the numbers\<close>

lemma flt_asym: "flt a b \<Longrightarrow> \<not> flt b a"
  by (cases a; cases b) auto

section \<open>Orientation of the table\<close>

lemma map_of_reverse_rows:
  "map_of (columns (reverse_rows df)) key = map_option rev (map_of (columns df) key)"
  by (simp add: reverse_rows_def map_of_map)

lemma norm_coord_rev: "norm_coord (rev p) vt ps = rev (norm_coord p vt ps)"
  by (simp add: norm_coord_def rev_map)

lemma interp_columns_rev:
  "interp_columns (map (\<lambda>(k, v). (k, rev v)) cols) (\<not> iv) x xp mk
     = interp_columns cols iv x xp mk"
proof (induction cols)
  case Nil
  show ?case by simp
next
  case (Cons c cols)
  obtain k v where c: "c = (k, v)" by (cases c)
  show ?case using Cons.IH
    by (cases iv) (auto simp: c interp_column_def split: sum.splits)
qed

lemma interp_va_eq:
  assumes "map_of (columns df) ''Pressure'' = Some p" and "xp0 = norm_coord p vt ps"
    and "xp0 \<noteq> []"
  shows "interp_va df vg vt ps mk =
     (case interp_columns (columns df) (flt (last xp0) (hd xp0)) (drop 1 vg)
             (if flt (last xp0) (hd xp0) then rev xp0 else xp0) (default_metakeys mk) of
        Inl e \<Rightarrow> Inl e
      | Inr out \<Rightarrow> Inr \<lparr>index = [0..<length (drop 1 vg)],
                         columns = set_column ''Sigma'' (drop 1 vg) out\<rparr>)"
  using assms by (auto simp: interp_va_def Let_def split: sum.splits)

text \<open>
  The first and the last normalized coordinate are strictly ordered whenever the first
  and the last pressure are finite and differ, as in a pressure column that is
  increasing or decreasing, and the top and the surface pressure are finite and differ.
\<close>

lemma ordered_ends:
  assumes "p \<noteq> []" and "hd p = Fin a" and "last p = Fin b" and "a \<noteq> b" and "s \<noteq> v"
  shows "flt (hd (norm_coord p (Fin v) (Fin s))) (last (norm_coord p (Fin v) (Fin s)))
       \<or> flt (last (norm_coord p (Fin v) (Fin s))) (hd (norm_coord p (Fin v) (Fin s)))"
proof -
  have h: "hd (norm_coord p (Fin v) (Fin s)) = Fin ((a - v) / (s - v))"
    using assms by (simp add: norm_coord_def hd_map fsub_def)
  have l: "last (norm_coord p (Fin v) (Fin s)) = Fin ((b - v) / (s - v))"
    using assms by (simp add: norm_coord_def last_map fsub_def)
  have "(a - v) / (s - v) \<noteq> (b - v) / (s - v)" using assms by simp
  then have "(a - v) / (s - v) < (b - v) / (s - v) \<or> (b - v) / (s - v) < (a - v) / (s - v)"
    by linarith
  then show ?thesis unfolding h l by simp
qed

text \<open>
  C5. Orientation invariance: for a table whose normalized pressure coordinate is
  strictly ordered between its first and its last row (as it is when the pressure
  column is increasing, or decreasing), \<open>interp_va\<close> returns for the table with its
  rows in reversed order what it returns for the table itself.
\<close>

theorem interp_va_orientation:
  assumes P: "map_of (columns va_df) ''Pressure'' = Some pressure"
    and ends: "flt (hd (norm_coord pressure vt ps)) (last (norm_coord pressure vt ps))
             \<or> flt (last (norm_coord pressure vt ps)) (hd (norm_coord pressure vt ps))"
  shows "interp_va (reverse_rows va_df) vglvls vt ps mk
           = interp_va va_df vglvls vt ps mk"
proof (cases "pressure = []")
  case True
  then show ?thesis
    using P by (simp add: interp_va_def map_of_reverse_rows norm_coord_def)
next
  case False
  define xp0 where "xp0 = norm_coord pressure vt ps"
  have ne: "xp0 \<noteq> []" using False by (simp add: xp0_def norm_coord_def)
  have cols: "columns (reverse_rows va_df) = map (\<lambda>(k, v). (k, rev v)) (columns va_df)"
    by (simp add: reverse_rows_def)
  have P': "map_of (columns (reverse_rows va_df)) ''Pressure'' = Some (rev pressure)"
    using P by (simp add: map_of_reverse_rows)
  have r: "rev xp0 = norm_coord (rev pressure) vt ps"
    by (simp add: xp0_def norm_coord_rev)
  have ne': "rev xp0 \<noteq> []" using ne by simp
  have L: "interp_va va_df vglvls vt ps mk =
     (case interp_columns (columns va_df) (flt (last xp0) (hd xp0)) (drop 1 vglvls)
             (if flt (last xp0) (hd xp0) then rev xp0 else xp0) (default_metakeys mk) of
        Inl e \<Rightarrow> Inl e
      | Inr out \<Rightarrow> Inr \<lparr>index = [0..<length (drop 1 vglvls)],
                         columns = set_column ''Sigma'' (drop 1 vglvls) out\<rparr>)"
    by (rule interp_va_eq [OF P xp0_def ne])
  have R: "interp_va (reverse_rows va_df) vglvls vt ps mk =
     (case interp_columns (columns (reverse_rows va_df)) (flt (hd xp0) (last xp0))
             (drop 1 vglvls)
             (if flt (hd xp0) (last xp0) then xp0 else rev xp0) (default_metakeys mk) of
        Inl e \<Rightarrow> Inl e
      | Inr out \<Rightarrow> Inr \<lparr>index = [0..<length (drop 1 vglvls)],
                         columns = set_column ''Sigma'' (drop 1 vglvls) out\<rparr>)"
    using interp_va_eq [OF P' r ne', of vglvls mk] ne by (simp add: hd_rev last_rev)
  from ends have "flt (hd xp0) (last xp0) = (\<not> flt (last xp0) (hd xp0))"
    using flt_asym by (auto simp: xp0_def)
  then show ?thesis
    unfolding L R cols
    by (cases "flt (last xp0) (hd xp0)")
      (simp_all add: interp_columns_rev [where iv = True, simplified]
         interp_columns_rev [where iv = False, simplified])
qed

theorem interp_va_orientation_witness:
  "map_of (columns ex_table) ''Pressure'' = Some [Fin 5000, Fin 101325]
   \<and> flt (hd (norm_coord [Fin 5000, Fin 101325] (Fin 5000) (Fin 101325)))
         (last (norm_coord [Fin 5000, Fin 101325] (Fin 5000) (Fin 101325)))
   \<and> interp_va (reverse_rows ex_table) [Fin 1, Fin 0.5, Fin 0] (Fin 5000) (Fin 101325) None
       = interp_va ex_table [Fin 1, Fin 0.5, Fin 0] (Fin 5000) (Fin 101325) None"
proof -
  have h1: "map_of (columns ex_table) ''Pressure'' = Some [Fin 5000, Fin 101325]"
    by (simp add: ex_table_def)
  have h2: "flt (hd (norm_coord [Fin 5000, Fin 101325] (Fin 5000) (Fin 101325)))
         (last (norm_coord [Fin 5000, Fin 101325] (Fin 5000) (Fin 101325)))"
    by (simp add: norm_coord_def fsub_def)
  show ?thesis
    using h1 h2 interp_va_orientation [OF h1 disjI1 [OF h2]] by blast
qed

section \<open>The store under make3d\<close>

lemma scale_vars_frame:
  "scale_vars vs lf st = (r, st') \<Longrightarrow>
     nxt st' = nxt st \<and> (\<forall>a. a \<notin> (data \<circ> snd) ` set vs \<longrightarrow> heap st' a = heap st a)"
proof (induction vs arbitrary: st)
  case Nil
  then show ?case by simp
next
  case (Cons kv vs)
  obtain k v where kv: "kv = (k, v)" by (cases kv)
  show ?case
  proof (cases "k \<noteq> ''TFLAG''")
    case False
    then show ?thesis using Cons.IH [of st] Cons.prems by (simp add: kv)
  next
    case True
    show ?thesis
    proof (cases "scale_arr lf (heap st (data v))")
      case (Inl e)
      then show ?thesis using True Cons.prems by (simp add: kv)
    next
      case (Inr a)
      then have "scale_vars vs lf (st\<lparr>heap := (heap st)(data v := a)\<rparr>) = (r, st')"
        using True Cons.prems by (simp add: kv)
      from Cons.IH [OF this] show ?thesis by (simp add: kv)
    qed
  qed
qed

lemma scale_vars_ok:
  "scale_vars vs lf st = (None, st') \<Longrightarrow> distinct (map (data \<circ> snd) vs) \<Longrightarrow>
   (k, v) \<in> set vs \<Longrightarrow>
     (k \<noteq> ''TFLAG'' \<longrightarrow> scale_arr lf (heap st (data v)) = Inr (heap st' (data v)))
   \<and> (k = ''TFLAG'' \<longrightarrow> heap st' (data v) = heap st (data v))"
proof (induction vs arbitrary: st)
  case Nil
  then show ?case by simp
next
  case (Cons kv vs)
  obtain k0 v0 where kv: "kv = (k0, v0)" by (cases kv)
  have d0: "data v0 \<notin> (data \<circ> snd) ` set vs" and dist: "distinct (map (data \<circ> snd) vs)"
    using Cons.prems(2) by (simp_all add: kv comp_def)
  show ?case
  proof (cases "k0 \<noteq> ''TFLAG''")
    case False
    then have run: "scale_vars vs lf st = (None, st')" using Cons.prems(1) by (simp add: kv)
    show ?thesis
    proof (cases "(k, v) = (k0, v0)")
      case True
      then show ?thesis using False scale_vars_frame [OF run] d0 by auto
    next
      case False
      then have "(k, v) \<in> set vs" using Cons.prems(3) by (auto simp: kv)
      from Cons.IH [OF run dist this] show ?thesis .
    qed
  next
    case True
    then obtain a where a: "scale_arr lf (heap st (data v0)) = Inr a"
      and run: "scale_vars vs lf (st\<lparr>heap := (heap st)(data v0 := a)\<rparr>) = (None, st')"
      using Cons.prems(1) by (auto simp: kv split: sum.splits)
    show ?thesis
    proof (cases "(k, v) = (k0, v0)")
      case True
      then show ?thesis using \<open>k0 \<noteq> ''TFLAG''\<close> a scale_vars_frame [OF run] d0 by auto
    next
      case False
      then have mem: "(k, v) \<in> set vs" using Cons.prems(3) by (auto simp: kv)
      then have "data v \<noteq> data v0" using d0 by force
      then show ?thesis using Cons.IH [OF run dist mem] by simp
    qed
  qed
qed

lemma slice_arrays_length:
  "slice_arrays vs idxs h = Inr as \<Longrightarrow> length as = length vs"
  by (induction vs arbitrary: as) (auto split: sum.splits if_splits)


lemma length_renumber [simp]: "length (renumber vs base) = length vs"
  by (simp add: renumber_def)

lemma renumber_nth:
  "i < length vs \<Longrightarrow>
     renumber vs base ! i = (fst (vs ! i), (snd (vs ! i))\<lparr>data := base + i\<rparr>)"
  by (simp add: renumber_def split: prod.splits)

lemma renumber_data: "map (data \<circ> snd) (renumber vs base) = map (\<lambda>i. base + i) [0..<length vs]"
  by (rule nth_equalityI) (simp_all add: renumber_nth)

lemma renumber_distinct: "distinct (map (data \<circ> snd) (renumber vs base))"
  by (simp add: renumber_data distinct_map inj_on_def)

lemma renumber_fresh: "(k, v) \<in> set (renumber vs base) \<Longrightarrow> base \<le> data v \<and> data v < base + length vs"
  by (auto simp: in_set_conv_nth renumber_nth)

lemma heap_alloc_old: "a < nxt st \<Longrightarrow> heap (alloc_arrays as st) a = heap st a"
  by (simp add: alloc_arrays_def)

lemma heap_alloc_new: "i < length as \<Longrightarrow> heap (alloc_arrays as st) (nxt st + i) = as ! i"
  by (simp add: alloc_arrays_def)

lemma nxt_alloc [simp]: "nxt (alloc_arrays as st) = nxt st + length as"
  by (simp add: alloc_arrays_def)

lemma make3d_Inr:
  assumes "make3d infile lf vg st = (Inr outfile, st')"
  shows "\<exists>as. slice_arrays (variables infile) (replicate (length lf) 0) (heap st) = Inr as
     \<and> outfile = infile\<lparr>variables := renumber (variables infile) (nxt st),
                         VGLVLS := Some vg, NLAYS := Some (length lf)\<rparr>
     \<and> nxt st' = nxt st + length (variables infile)
     \<and> (\<forall>i < length (variables infile).
           (fst (variables infile ! i) \<noteq> ''TFLAG'' \<longrightarrow>
              scale_arr lf (as ! i) = Inr (heap st' (nxt st + i)))
         \<and> (fst (variables infile ! i) = ''TFLAG'' \<longrightarrow> heap st' (nxt st + i) = as ! i))"
proof -
  from assms obtain as where as: "slice_arrays (variables infile) (replicate (length lf) 0) (heap st) = Inr as"
    by (auto simp: make3d_def slice_LAY_def Let_def split: sum.splits)
  have len: "length as = length (variables infile)" by (rule slice_arrays_length [OF as])
  define st1 where "st1 = alloc_arrays as st"
  define vs where "vs = renumber (variables infile) (nxt st)"
  have run: "scale_vars vs lf st1 = (None, st')"
    and out: "outfile = infile\<lparr>variables := vs, VGLVLS := Some vg, NLAYS := Some (length lf)\<rparr>"
    using assms as
    by (auto simp: make3d_def slice_LAY_def Let_def st1_def vs_def split: option.splits prod.splits)
  have nx: "nxt st' = nxt st + length (variables infile)"
    using scale_vars_frame [OF run] by (simp add: st1_def len)
  have each: "(fst (variables infile ! i) \<noteq> ''TFLAG'' \<longrightarrow>
              scale_arr lf (as ! i) = Inr (heap st' (nxt st + i)))
         \<and> (fst (variables infile ! i) = ''TFLAG'' \<longrightarrow> heap st' (nxt st + i) = as ! i)"
    if i: "i < length (variables infile)" for i
  proof -
    have mem: "(fst (variables infile ! i), (snd (variables infile ! i))\<lparr>data := nxt st + i\<rparr>) \<in> set vs"
      using i by (auto simp: vs_def in_set_conv_nth renumber_nth intro!: exI [of _ i])
    have h: "heap st1 (nxt st + i) = as ! i"
      using i len by (simp add: st1_def heap_alloc_new)
    from scale_vars_ok [OF run _ mem] show ?thesis
      by (simp add: vs_def renumber_distinct h)
  qed
  show ?thesis using as out nx each by (auto simp: vs_def)
qed

lemma make3d_frame:
  assumes "make3d infile lf vg st = (res, st')"
  shows "nxt st \<le> nxt st' \<and> (\<forall>a < nxt st. heap st' a = heap st a)"
proof (cases "slice_arrays (variables infile) (replicate (length lf) 0) (heap st)")
  case (Inl e)
  then show ?thesis using assms by (simp add: make3d_def slice_LAY_def)
next
  case (Inr as)
  define st1 where "st1 = alloc_arrays as st"
  define vs where "vs = renumber (variables infile) (nxt st)"
  obtain r where run: "scale_vars vs lf st1 = (r, st')"
    using assms Inr
    by (auto simp: make3d_def slice_LAY_def Let_def st1_def vs_def split: option.splits prod.splits)
  have "a \<notin> (data \<circ> snd) ` set vs" if "a < nxt st" for a
    using that renumber_fresh [of _ _ "variables infile" "nxt st"] by (fastforce simp: vs_def)
  then show ?thesis
    using scale_vars_frame [OF run] by (simp add: st1_def heap_alloc_old)
qed

section \<open>Sums and renormalization\<close>

lemma fsum_Nil [simp]: "fsum [] = Fin 0" by (simp add: fsum_def)
lemma fsum_Cons [simp]: "fsum (x # xs) = fadd x (fsum xs)" by (simp add: fsum_def)

lemma fadd_Fin_D: "fadd a b = Fin s \<Longrightarrow> \<exists>x y. a = Fin x \<and> b = Fin y \<and> s = x + y"
  by (cases a; cases b) auto

lemma fsum_Fin_D: "fsum xs = Fin s \<Longrightarrow> \<exists>rs. xs = map Fin rs \<and> sum_list rs = s"
proof (induction xs arbitrary: s)
  case Nil
  then show ?case by simp
next
  case (Cons x xs)
  from Cons.prems obtain a b where x: "x = Fin a" and b: "fsum xs = Fin b" and s: "s = a + b"
    using fadd_Fin_D [of x "fsum xs" s] by auto
  from Cons.IH [OF b] obtain rs where "xs = map Fin rs" "sum_list rs = b" by auto
  then have "x # xs = map Fin (a # rs) \<and> sum_list (a # rs) = s" using x s by simp
  then show ?case by (rule exI [of _ "a # rs"])
qed


lemma fsum_divided:
  "c \<noteq> 0 \<Longrightarrow> fsum (map (\<lambda>v. fdiv v (Fin c)) (map Fin rs)) = Fin (sum_list rs / c)"
  by (induction rs) (simp_all add: add_divide_distrib)

lemma fmul_NaN [simp]: "fmul v NaN = NaN"
  by (cases v) simp_all

lemma fdiv_zero_zero: "fdiv (Fin 0) (Fin 0) = NaN"
  by simp

lemma renormalize_sum:
  assumes "fsum raw = Fin s" and "s \<noteq> 0"
  shows "fsum (renormalize raw) = Fin 1"
proof -
  from fsum_Fin_D [OF assms(1)] obtain rs where rs: "raw = map Fin rs" "sum_list rs = s" by auto
  have "fsum (renormalize raw) = fsum (map (\<lambda>v. fdiv v (Fin s)) (map Fin rs))"
    using assms(1) by (simp add: renormalize_def rs(1))
  then show ?thesis using fsum_divided [OF assms(2), of rs] rs(2) assms(2) by simp
qed

lemma renormalize_zero:
  assumes "list_all (\<lambda>v. v = Fin 0) raw"
  shows "renormalize raw = map (\<lambda>_. NaN) raw"
proof -
  have z: "fsum xs = Fin 0" if "list_all (\<lambda>v. v = Fin 0) xs" for xs
    using that by (induction xs) auto
  show ?thesis using assms z [OF assms] by (auto simp: renormalize_def list_all_iff)
qed



section \<open>Conservation\<close>







section \<open>The columns of the interpolated table\<close>

lemma map_of_replace:
  "map_of (map (\<lambda>(a, b). if a = k then (a, v) else (a, b)) cols) k'
     = (if k' = k then (if k \<in> fst ` set cols then Some v else None) else map_of cols k')"
  by (induction cols) (force split: if_splits)+

lemma map_of_set_column:
  "map_of (set_column k v cols) k' = (if k' = k then Some v else map_of cols k')"
proof (cases "k \<in> fst ` set cols")
  case True
  then show ?thesis by (simp add: set_column_def map_of_replace)
next
  case False
  then have "map_of cols k = None" by (simp add: map_of_eq_None_iff)
  then show ?thesis using False by (auto simp: set_column_def map_add_def split: option.splits)
qed

lemma interp_columns_lookup:
  "interp_columns cols iv x xp mk = Inr out \<Longrightarrow> map_of cols key = Some fp \<Longrightarrow>
     \<exists>raw. interp_column iv x xp fp = Inr raw
        \<and> map_of out key = Some (if key \<notin> set mk then renormalize raw else raw)"
proof (induction cols arbitrary: out)
  case Nil
  then show ?case by simp
next
  case (Cons kv cols)
  obtain k v where kv: "kv = (k, v)" by (cases kv)
  from Cons.prems(1) obtain col out' where
    col: "interp_column iv x xp v = Inr col"
    and rest: "interp_columns cols iv x xp mk = Inr out'"
    and out: "out = (k, if k \<notin> set mk then renormalize col else col) # out'"
    by (auto simp: kv split: sum.splits)
  show ?case
  proof (cases "key = k")
    case True
    then show ?thesis using Cons.prems(2) col by (simp add: kv out)
  next
    case False
    then have "map_of cols key = Some fp" using Cons.prems(2) by (simp add: kv)
    from Cons.IH [OF rest this] show ?thesis using False by (simp add: out)
  qed
qed

lemma interp_va_column:
  assumes ok: "interp_va df vg vt ps mk = Inr out"
    and col: "map_of (columns df) key = Some fp" and key: "key \<noteq> ''Sigma''"
  shows "\<exists>raw. interp_va_raw df vg vt ps key = Inr raw
       \<and> map_of (columns out) key
           = Some (if key \<notin> set (default_metakeys mk) then renormalize raw else raw)"
proof -
  from ok obtain p where P: "map_of (columns df) ''Pressure'' = Some p"
    by (auto simp: interp_va_def Let_def split: option.splits)
  define xp0 where "xp0 = norm_coord p vt ps"
  have ne: "xp0 \<noteq> []"
    using ok P by (auto simp: interp_va_def Let_def xp0_def split: if_splits)
  from ok obtain cs where
    cs: "interp_columns (columns df) (flt (last xp0) (hd xp0)) (drop 1 vg)
           (if flt (last xp0) (hd xp0) then rev xp0 else xp0) (default_metakeys mk) = Inr cs"
    and out: "out = \<lparr>index = [0..<length (drop 1 vg)],
                     columns = set_column ''Sigma'' (drop 1 vg) cs\<rparr>"
    unfolding interp_va_eq [OF P xp0_def ne] by (auto split: sum.splits)
  from interp_columns_lookup [OF cs col] obtain raw where
    raw: "interp_column (flt (last xp0) (hd xp0)) (drop 1 vg)
            (if flt (last xp0) (hd xp0) then rev xp0 else xp0) fp = Inr raw"
    and m: "map_of cs key = Some (if key \<notin> set (default_metakeys mk) then renormalize raw else raw)"
    by blast
  have "interp_va_raw df vg vt ps key = Inr raw"
    using P ne col raw by (simp add: interp_va_raw_def Let_def xp0_def [symmetric])
  then show ?thesis using m key by (simp add: out map_of_set_column)
qed

lemma interp_columns_total:
  assumes "xp \<noteq> []" and "list_all (\<lambda>(k, v). length v = length xp) cols"
  shows "\<exists>out. interp_columns cols iv x xp mk = Inr out"
  using assms(2)
proof (induction cols)
  case Nil
  show ?case by simp
next
  case (Cons kv cols)
  obtain k v where kv: "kv = (k, v)" by (cases kv)
  from Cons obtain out where "interp_columns cols iv x xp mk = Inr out" by auto
  moreover have "\<exists>col. interp_column iv x xp v = Inr col"
    using Cons.prems assms(1) by (simp add: kv interp_column_def np_interp_def)
  ultimately show ?case by (auto simp: kv)
qed

lemma interp_va_total:
  assumes P: "map_of (columns df) ''Pressure'' = Some p" and ne: "p \<noteq> []"
    and len: "list_all (\<lambda>(k, v). length v = length p) (columns df)"
  shows "\<exists>out. interp_va df vg vt ps mk = Inr out"
proof -
  define xp0 where "xp0 = norm_coord p vt ps"
  have ne0: "xp0 \<noteq> []" using ne by (simp add: xp0_def norm_coord_def)
  define xp where "xp = (if flt (last xp0) (hd xp0) then rev xp0 else xp0)"
  have l: "length xp = length p" by (simp add: xp_def xp0_def norm_coord_def)
  have "xp \<noteq> []" using ne0 by (simp add: xp_def)
  then have "\<exists>cs. interp_columns (columns df) (flt (last xp0) (hd xp0)) (drop 1 vg) xp
                     (default_metakeys mk) = Inr cs"
    by (rule interp_columns_total) (simp add: l len)
  then obtain cs where "interp_columns (columns df) (flt (last xp0) (hd xp0)) (drop 1 vg) xp
                     (default_metakeys mk) = Inr cs" ..
  then show ?thesis
    unfolding interp_va_eq [OF P xp0_def ne0] xp_def by simp
qed

lemma np_interp1_left:
  assumes "xp \<noteq> []" and "list_all (flt x) xp"
  shows "np_interp1 xp fp left x = left"
proof -
  have h: "flt x (hd xp)" and l: "flt x (last xp)"
    using assms by (simp_all add: list_all_iff)
  have "x \<noteq> NaN" using h by auto
  moreover have "\<not> flt (last xp) x" using l flt_asym by blast
  ultimately show ?thesis using h by (simp add: np_interp1_def)
qed

text \<open>
  C6. Clamp below the table: at every target point that lies below every normalized
  source coordinate, the interpolated series of every column of the table has the value
  0 before the renormalization.
\<close>

theorem interp_va_left_clamp:
  assumes P: "map_of (columns df) ''Pressure'' = Some p" and ne: "p \<noteq> []"
    and col: "map_of (columns df) key = Some fp" and len: "length fp = length p"
    and i: "i < length (drop 1 vg)"
    and below: "list_all (flt (drop 1 vg ! i)) (norm_coord p vt ps)"
  shows "\<exists>raw. interp_va_raw df vg vt ps key = Inr raw \<and> raw ! i = Fin 0"
proof -
  define xp0 where "xp0 = norm_coord p vt ps"
  have ne0: "xp0 \<noteq> []" using ne by (simp add: xp0_def norm_coord_def)
  define xp where "xp = (if flt (last xp0) (hd xp0) then rev xp0 else xp0)"
  have l: "length xp = length fp" by (simp add: xp_def xp0_def norm_coord_def len)
  have nx: "xp \<noteq> []" using ne0 by (simp add: xp_def)
  have b: "list_all (flt (drop 1 vg ! i)) xp"
    using below by (simp add: xp_def xp0_def list_all_iff)
  define fp' where "fp' = (if flt (last xp0) (hd xp0) then rev fp else fp)"
  have raw: "interp_va_raw df vg vt ps key = Inr (map (np_interp1 xp fp' (Fin 0)) (drop 1 vg))"
    using P col ne0 nx l
    by (simp add: interp_va_raw_def Let_def xp0_def [symmetric] interp_column_def np_interp_def
        xp_def fp'_def)
  have "map (np_interp1 xp fp' (Fin 0)) (drop 1 vg) ! i = Fin 0"
    using i np_interp1_left [OF nx b] by simp
  then show ?thesis using raw by simp
qed

theorem interp_va_left_clamp_witness:
  "map_of (columns ex_table) ''Pressure'' = Some [Fin 5000, Fin 101325]
   \<and> map_of (columns ex_table) ''SURF'' = Some [Fin 0, Fin 1]
   \<and> list_all (flt (drop 1 [Fin 1, Fin 0.5, Fin (- 0.1)] ! 1))
         (norm_coord [Fin 5000, Fin 101325] (Fin 5000) (Fin 101325))
   \<and> (\<exists>raw. interp_va_raw ex_table [Fin 1, Fin 0.5, Fin (- 0.1)] (Fin 5000) (Fin 101325) ''SURF''
                = Inr raw \<and> raw ! 1 = Fin 0)"
proof -
  have P: "map_of (columns ex_table) ''Pressure'' = Some [Fin 5000, Fin 101325]"
    by (simp add: ex_table_def)
  have ne: "[Fin 5000, Fin 101325] \<noteq> []" by simp
  have col: "map_of (columns ex_table) ''SURF'' = Some [Fin 0, Fin 1]"
    by (simp add: ex_table_def)
  have len: "length [Fin 0, Fin 1] = length [Fin 5000, Fin 101325]" by simp
  have i: "1 < length (drop 1 [Fin 1, Fin 0.5, Fin (- 0.1)])" by simp
  have below: "list_all (flt (drop 1 [Fin 1, Fin 0.5, Fin (- 0.1)] ! 1))
         (norm_coord [Fin 5000, Fin 101325] (Fin 5000) (Fin 101325))"
    by (simp add: norm_coord_def fsub_def)
  show ?thesis
    using P col below interp_va_left_clamp [OF P ne col len i below] by blast
qed

section \<open>Renormalization\<close>

lemmas eval_defs = interp_va_def interp_va_raw_def Let_def default_metakeys_def norm_coord_def
  fsub_def interp_column_def np_interp_def np_interp1_def renormalize_def set_column_def
  fge_def feq_def

text \<open>
  The claim C2 as stated fails: with \<^verbatim>\<open>metakeys = ['Pressure']\<close> the column
  \<^verbatim>\<open>Sigma\<close> is not a meta column, its interpolated values are not all zero, and the
  returned column is the target grid, which sums to 0.5; and the column \<^verbatim>\<open>MIX\<close>, whose
  interpolated values 1 and -1 are not all zero, is divided by the sum 0 and holds
  infinities, which sum to NaN.
\<close>

theorem interp_va_renormalized_counterexample:
  "interp_va ex_mixed [Fin 1, Fin 0.5, Fin 0] (Fin 5000) (Fin 101325) (Some [''Pressure''])
     = Inr \<lparr>index = [0, 1],
            columns = [(''Pressure'', [Fin 53162.5, Fin 5000]),
                       (''Sigma'', [Fin 0.5, Fin 0]),
                       (''MIX'', [PInf, NInf])]\<rparr>
   \<and> interp_va_raw ex_mixed [Fin 1, Fin 0.5, Fin 0] (Fin 5000) (Fin 101325) ''MIX''
       = Inr [Fin 1, Fin (- 1)]
   \<and> interp_va_raw ex_mixed [Fin 1, Fin 0.5, Fin 0] (Fin 5000) (Fin 101325) ''Sigma''
       = Inr [Fin 0.5, Fin 0]
   \<and> fsum [PInf, NInf] = NaN
   \<and> fsum [Fin 0.5, Fin 0] = Fin 0.5"
  by (simp add: eval_defs ex_mixed_def)

text \<open>
  C2, amended. For every column of the input table other than \<^verbatim>\<open>Sigma\<close> that is not
  listed in \<^verbatim>\<open>metakeys\<close> and whose interpolated values have a finite sum other than 0,
  the column of that name in the table returned by \<open>interp_va\<close> sums to 1.
\<close>

theorem interp_va_renormalized:
  assumes ok: "interp_va df vg vt ps mk = Inr out"
    and col: "map_of (columns df) key = Some fp"
    and nm: "key \<notin> set (default_metakeys mk)" and ns: "key \<noteq> ''Sigma''"
    and raw: "interp_va_raw df vg vt ps key = Inr raw"
    and s: "fsum raw = Fin s" and s0: "s \<noteq> 0"
  shows "\<exists>c. map_of (columns out) key = Some c \<and> fsum c = Fin 1"
proof -
  from interp_va_column [OF ok col ns] raw nm
  have "map_of (columns out) key = Some (renormalize raw)" by auto
  then show ?thesis using renormalize_sum [OF s s0] by simp
qed

theorem interp_va_renormalized_witness:
  "map_of (columns ex_table) ''SURF'' = Some [Fin 0, Fin 1]
   \<and> ''SURF'' \<notin> set (default_metakeys None)
   \<and> interp_va_raw ex_table [Fin 1, Fin 0.5, Fin 0] (Fin 5000) (Fin 101325) ''SURF''
       = Inr [Fin 0.5, Fin 0]
   \<and> fsum [Fin 0.5, Fin 0] = Fin 0.5
   \<and> (\<exists>out c. interp_va ex_table [Fin 1, Fin 0.5, Fin 0] (Fin 5000) (Fin 101325) None = Inr out
          \<and> map_of (columns out) ''SURF'' = Some c \<and> fsum c = Fin 1)"
proof -
  obtain out where ok: "interp_va ex_table [Fin 1, Fin 0.5, Fin 0] (Fin 5000) (Fin 101325) None = Inr out"
    by (simp add: eval_defs ex_table_def)
  have col: "map_of (columns ex_table) ''SURF'' = Some [Fin 0, Fin 1]"
    by (simp add: ex_table_def)
  have nm: "''SURF'' \<notin> set (default_metakeys None)" by (simp add: default_metakeys_def)
  have ns: "''SURF'' \<noteq> ''Sigma''" by simp
  have raw: "interp_va_raw ex_table [Fin 1, Fin 0.5, Fin 0] (Fin 5000) (Fin 101325) ''SURF''
       = Inr [Fin 0.5, Fin 0]"
    by (simp add: eval_defs ex_table_def)
  have s: "fsum [Fin 0.5, Fin 0] = Fin 0.5" by simp
  have s0: "(0.5::real) \<noteq> 0" by simp
  show ?thesis
    using ok col nm raw s interp_va_renormalized [OF ok col nm ns raw s s0] by blast
qed

section \<open>A sector without weight\<close>

lemma scale_arr_nan:
  assumes "scale_arr lf a = Inr c" and "list_all (\<lambda>f. f = NaN) lf"
  shows "arr_all (\<lambda>v. v = NaN) c"
proof (cases "list_all (\<lambda>ls. length ls = length lf) a")
  case True
  then have c: "c = map (\<lambda>ls. map (\<lambda>(l, f). map (map (\<lambda>v. fmul v f)) l) (zip ls lf)) a"
    using assms(1) by (simp add: scale_arr_def)
  show ?thesis
    using assms(2) unfolding c arr_all_def list_all_iff
    by (auto dest!: set_zip_rightD)
next
  case False
  then have l: "length lf = 1"
    and c: "c = map (map (map (map (\<lambda>v. fmul v (hd lf))))) a"
    using assms(1) by (auto simp: scale_arr_def split: if_splits)
  have "hd lf = NaN" using l assms(2) by (cases lf) auto
  then show ?thesis unfolding c arr_all_def list_all_iff by auto
qed

text \<open>
  The claim C3 as stated fails: the sector \<^verbatim>\<open>NONE\<close> has the interpolated values 0 and
  0, and its renormalized column holds NaN in both rows, not 0.
\<close>

theorem interp_va_zero_sector_counterexample:
  "interp_va_raw ex_table [Fin 1, Fin 0.5, Fin 0] (Fin 5000) (Fin 101325) ''NONE''
     = Inr [Fin 0, Fin 0]
   \<and> interp_va ex_table [Fin 1, Fin 0.5, Fin 0] (Fin 5000) (Fin 101325)
       (Some [''Pressure'', ''Sigma''])
     = Inr \<lparr>index = [0, 1],
            columns = [(''Pressure'', [Fin 53162.5, Fin 5000]),
                       (''Sigma'', [Fin 0.5, Fin 0]),
                       (''SURF'', [Fin 1, Fin 0]),
                       (''NONE'', [NaN, NaN])]\<rparr>"
  by (simp add: eval_defs ex_table_def)

text \<open>
  C3, amended. For a table with a non-empty pressure column and columns of that length,
  and a column other than \<^verbatim>\<open>Sigma\<close> that is not a meta column and whose interpolated
  values are all 0: \<open>interp_va\<close> returns a table, the renormalized column holds NaN in
  every row (0/0 is NaN), and whenever \<open>make3d\<close> succeeds with that column as the layer
  fractions, every entry of every variable other than \<^verbatim>\<open>TFLAG\<close> of its result is NaN.
\<close>

theorem interp_va_zero_sector:
  assumes P: "map_of (columns df) ''Pressure'' = Some p" and ne: "p \<noteq> []"
    and len: "list_all (\<lambda>(k, v). length v = length p) (columns df)"
    and col: "map_of (columns df) key = Some fp"
    and nm: "key \<notin> set (default_metakeys mk)" and ns: "key \<noteq> ''Sigma''"
    and raw: "interp_va_raw df vg vt ps key = Inr raw"
    and zero: "list_all (\<lambda>v. v = Fin 0) raw"
  shows "(\<exists>out. interp_va df vg vt ps mk = Inr out
            \<and> map_of (columns out) key = Some (map (\<lambda>_. NaN) raw))
       \<and> (make3d infile (map (\<lambda>_. NaN) raw) vglvls st = (Inr outfile, st') \<longrightarrow>
            i < length (variables outfile) \<longrightarrow> fst (variables outfile ! i) \<noteq> ''TFLAG'' \<longrightarrow>
            arr_all (\<lambda>v. v = NaN) (heap st' (data (snd (variables outfile ! i)))))"
proof -
  from interp_va_total [OF P ne len] obtain out where ok: "interp_va df vg vt ps mk = Inr out"
    by blast
  from interp_va_column [OF ok col ns] raw nm
  have "map_of (columns out) key = Some (renormalize raw)" by auto
  then have first: "\<exists>out. interp_va df vg vt ps mk = Inr out
            \<and> map_of (columns out) key = Some (map (\<lambda>_. NaN) raw)"
    using ok renormalize_zero [OF zero] by auto
  have second: "arr_all (\<lambda>v. v = NaN) (heap st' (data (snd (variables outfile ! i))))"
    if m: "make3d infile (map (\<lambda>_. NaN) raw) vglvls st = (Inr outfile, st')"
      and i: "i < length (variables outfile)" and k: "fst (variables outfile ! i) \<noteq> ''TFLAG''"
  proof -
    from make3d_Inr [OF m] obtain as where
      out: "outfile = infile\<lparr>variables := renumber (variables infile) (nxt st),
                         VGLVLS := Some vglvls, NLAYS := Some (length (map (\<lambda>_. NaN) raw))\<rparr>"
      and each: "\<forall>i < length (variables infile).
           (fst (variables infile ! i) \<noteq> ''TFLAG'' \<longrightarrow>
              scale_arr (map (\<lambda>_. NaN) raw) (as ! i) = Inr (heap st' (nxt st + i)))"
      by blast
    have i': "i < length (variables infile)" using i by (simp add: out)
    have "fst (variables infile ! i) \<noteq> ''TFLAG''" using k i' by (simp add: out renumber_nth)
    then have "scale_arr (map (\<lambda>_. NaN) raw) (as ! i) = Inr (heap st' (nxt st + i))"
      using each i' by blast
    then have "arr_all (\<lambda>v. v = NaN) (heap st' (nxt st + i))"
      by (rule scale_arr_nan) (simp add: list_all_iff)
    then show ?thesis using i' by (simp add: out renumber_nth)
  qed
  show ?thesis using first second by blast
qed

theorem interp_va_zero_sector_witness:
  "map_of (columns ex_table) ''Pressure'' = Some [Fin 5000, Fin 101325]
   \<and> map_of (columns ex_table) ''NONE'' = Some [Fin 0, Fin 0]
   \<and> interp_va_raw ex_table [Fin 1, Fin 0.5, Fin 0] (Fin 5000) (Fin 101325) ''NONE''
       = Inr [Fin 0, Fin 0]
   \<and> (\<exists>out. interp_va ex_table [Fin 1, Fin 0.5, Fin 0] (Fin 5000) (Fin 101325) None = Inr out
          \<and> map_of (columns out) ''NONE'' = Some [NaN, NaN])
   \<and> (\<exists>outfile st'. make3d ex_file [NaN, NaN] [Fin 1, Fin 0.5, Fin 0] ex_store = (Inr outfile, st')
          \<and> fst (variables outfile ! 1) = ''NOX''
          \<and> arr_all (\<lambda>v. v = NaN) (heap st' (data (snd (variables outfile ! 1)))))"
proof -
  have P: "map_of (columns ex_table) ''Pressure'' = Some [Fin 5000, Fin 101325]"
    by (simp add: ex_table_def)
  have ne: "[Fin 5000, Fin 101325] \<noteq> []" by simp
  have len: "list_all (\<lambda>(k, v). length v = length [Fin 5000, Fin 101325]) (columns ex_table)"
    by (simp add: ex_table_def)
  have col: "map_of (columns ex_table) ''NONE'' = Some [Fin 0, Fin 0]"
    by (simp add: ex_table_def)
  have nm: "''NONE'' \<notin> set (default_metakeys None)" by (simp add: default_metakeys_def)
  have ns: "''NONE'' \<noteq> ''Sigma''" by simp
  have raw: "interp_va_raw ex_table [Fin 1, Fin 0.5, Fin 0] (Fin 5000) (Fin 101325) ''NONE''
       = Inr [Fin 0, Fin 0]"
    by (simp add: eval_defs ex_table_def)
  have zero: "list_all (\<lambda>v. v = Fin 0) [Fin 0, Fin 0]" by simp
  obtain outfile st' where
    m: "make3d ex_file (map (\<lambda>_. NaN) [Fin 0, Fin 0]) [Fin 1, Fin 0.5, Fin 0] ex_store
          = (Inr outfile, st')"
    and v: "variables outfile ! 1
          = (''NOX'', \<lparr>dimensions = [''TSTEP'', ''LAY'', ''ROW'', ''COL''], data = 4\<rparr>)"
    by (simp add: make3d_def slice_LAY_def ex_file_def ex_store_def renumber_def
        alloc_arrays_def take_layers_def scale_arr_def Let_def)
  have i: "1 < length (variables outfile)" and k: "fst (variables outfile ! 1) \<noteq> ''TFLAG''"
    using m v
    by (auto simp: make3d_def slice_LAY_def ex_file_def ex_store_def renumber_def
        alloc_arrays_def take_layers_def scale_arr_def Let_def)
  note inst = interp_va_zero_sector [OF P ne len col nm ns raw zero,
      where infile = ex_file and vglvls = "[Fin 1, Fin 0.5, Fin 0]" and st = ex_store
        and outfile = outfile and st' = st' and i = 1]
  have a: "\<exists>out. interp_va ex_table [Fin 1, Fin 0.5, Fin 0] (Fin 5000) (Fin 101325) None = Inr out
          \<and> map_of (columns out) ''NONE'' = Some [NaN, NaN]"
    using inst by simp
  have b: "arr_all (\<lambda>v. v = NaN) (heap st' (data (snd (variables outfile ! 1))))"
    using inst m i k by blast
  have "fst (variables outfile ! 1) = ''NOX''" using v by simp
  then show ?thesis using P col raw a b m by auto
qed

section \<open>The store under allocate\<close>

lemma sector_files_frame:
  "sector_files self infile m st = (res, st') \<Longrightarrow>
     nxt st \<le> nxt st' \<and> (\<forall>a < nxt st. heap st' a = heap st a)"
proof (induction m arbitrary: st res st')
  case Nil
  then show ?case by simp
next
  case (Cons sv m)
  obtain sector varkeys where sv: "sv = (sector, varkeys)" by (cases sv)
  show ?case
  proof (cases "map_of (columns (outdf self)) sector")
    case None
    then show ?thesis using Cons.prems by (simp add: sv)
  next
    case (Some lf)
    show ?thesis
    proof (cases varkeys)
      case None
      then show ?thesis using Cons.prems Some by (simp add: sv)
    next
      case (Some vk)
      obtain r1 st1 where m: "make3d (subset_variables infile vk) lf (outvglvls self) st = (r1, st1)"
        by (cases "make3d (subset_variables infile vk) lf (outvglvls self) st")
      note f1 = make3d_frame [OF m]
      show ?thesis
      proof (cases r1)
        case (Inl e)
        then show ?thesis using Cons.prems \<open>map_of (columns (outdf self)) sector = Some lf\<close> Some m f1
          by (simp add: sv)
      next
        case (Inr sf)
        obtain r2 st2 where rest: "sector_files self infile m st1 = (r2, st2)"
          by (cases "sector_files self infile m st1")
        note f2 = Cons.IH [OF rest]
        have "st' = st2"
          using Cons.prems \<open>map_of (columns (outdf self)) sector = Some lf\<close> Some m Inr rest
          by (cases r2) (simp_all add: sv)
        then show ?thesis using f1 f2 by auto
      qed
    qed
  qed
qed

lemma stack_frame:
  "stack f others st = (outfile, st') \<Longrightarrow>
     nxt st \<le> nxt st' \<and> (\<forall>a < nxt st. heap st' a = heap st a)
   \<and> (\<forall>i < length (variables outfile). nxt st \<le> data (snd (variables outfile ! i)))"
  by (auto simp: stack_def Let_def heap_alloc_old renumber_nth)

lemma allocate_cases:
  assumes "allocate self infile arg st = (res, arg', st')"
  obtains (many) "1 < length (isnone (as_mapping arg))" "res = Inl ValueError" "arg' = arg"
      "st' = st"
  | (fail) e where "\<not> 1 < length (isnone (as_mapping arg))"
      "sector_files self infile (assign_default infile (as_mapping arg)) st = (Inl e, st')"
      "res = Inl e" "arg' = caller_view arg (assign_default infile (as_mapping arg))"
  | (empty) "\<not> 1 < length (isnone (as_mapping arg))"
      "sector_files self infile (assign_default infile (as_mapping arg)) st = (Inr [], st')"
      "res = Inl IndexError" "arg' = caller_view arg (assign_default infile (as_mapping arg))"
  | (ok) sf rest st1 outfile where "\<not> 1 < length (isnone (as_mapping arg))"
      "sector_files self infile (assign_default infile (as_mapping arg)) st = (Inr (sf # rest), st1)"
      "stack sf rest st1 = (outfile, st')"
      "res = Inr outfile" "arg' = caller_view arg (assign_default infile (as_mapping arg))"
  using assms
  by (auto simp: allocate_def Let_def split: if_splits prod.splits sum.splits list.splits)

lemma allocate_frame:
  assumes "allocate self infile arg st = (res, arg', st')"
  shows "nxt st \<le> nxt st' \<and> (\<forall>a < nxt st. heap st' a = heap st a)"
  using assms
proof (cases rule: allocate_cases)
  case many
  then show ?thesis by simp
next
  case (fail e)
  then show ?thesis using sector_files_frame by blast
next
  case empty
  then show ?thesis using sector_files_frame by blast
next
  case (ok sf rest st1 outfile)
  then show ?thesis
    using sector_files_frame [OF ok(2)] stack_frame [OF ok(3)] by auto
qed

lemma allocate_fresh:
  assumes "allocate self infile arg st = (Inr outfile, arg', st')"
    and "i < length (variables outfile)"
  shows "nxt st \<le> data (snd (variables outfile ! i))"
  using assms(1)
proof (cases rule: allocate_cases)
  case (ok sf rest st1 out2)
  then show ?thesis
    using sector_files_frame [OF ok(2)] stack_frame [OF ok(3)] assms(2) by force
qed simp_all



section \<open>The input field\<close>

lemmas alloc_defs = allocate_def as_mapping_def caller_view_def assign_default_def
  unassigned_keys_def all_keys_def dict_set_def subset_variables_def stack_def make3d_def slice_LAY_def
  renumber_def alloc_arrays_def take_layers_def scale_arr_def Let_def

lemma ex_allocate:
  "\<exists>outfile st2. allocate ex_vertical ex_file (Mapping ex_keys) ex_store
      = (Inr outfile, Mapping [(''onroad'', Some [''NOX'']), (''other'', Some [''CO''])], st2)
    \<and> variables outfile
        = [(''NOX'', \<lparr>dimensions = [''TSTEP'', ''LAY'', ''ROW'', ''COL''], data = 5\<rparr>),
           (''CO'', \<lparr>dimensions = [''TSTEP'', ''LAY'', ''ROW'', ''COL''], data = 6\<rparr>)]
    \<and> NLAYS outfile = Some 1 \<and> VGLVLS outfile = Some [Fin 1, Fin 0.9, Fin 0.5, Fin 0]
    \<and> heap st2 5 = [[[[Fin 10]]]] \<and> heap st2 6 = [[[[Fin 4, Fin 6]]]]"
  by (simp add: alloc_defs ex_vertical_def ex_outdf_def ex_file_def ex_keys_def ex_store_def)

text \<open>
  C9. The input field is left unchanged: every array that exists before a call of
  \<open>make3d\<close> or of \<open>allocate\<close>, and so every array of the input field, holds after
  the call what it held before, whether the call returns or raises; and every variable
  of a field that is returned has an array that did not exist before the call.
\<close>

theorem input_unchanged:
  assumes "a < nxt st"
  shows "(make3d infile lf vg st = (res, st') \<longrightarrow> heap st' a = heap st a)
       \<and> (make3d infile lf vg st = (Inr outfile, st') \<longrightarrow> i < length (variables outfile)
            \<longrightarrow> nxt st \<le> data (snd (variables outfile ! i)))
       \<and> (allocate self infile arg st = (res2, arg2, st2) \<longrightarrow> heap st2 a = heap st a)
       \<and> (allocate self infile arg st = (Inr outfile2, arg2, st2) \<longrightarrow> j < length (variables outfile2)
            \<longrightarrow> nxt st \<le> data (snd (variables outfile2 ! j)))"
proof -
  have 1: "heap st' a = heap st a" if "make3d infile lf vg st = (res, st')"
    using make3d_frame [OF that] assms by simp
  have 2: "nxt st \<le> data (snd (variables outfile ! i))"
    if m: "make3d infile lf vg st = (Inr outfile, st')" and i: "i < length (variables outfile)"
  proof -
    from make3d_Inr [OF m] have "variables outfile = renumber (variables infile) (nxt st)"
      by auto
    then show ?thesis using i by (simp add: renumber_nth)
  qed
  have 3: "heap st2 a = heap st a" if "allocate self infile arg st = (res2, arg2, st2)"
    using allocate_frame [OF that] assms by simp
  have 4: "nxt st \<le> data (snd (variables outfile2 ! j))"
    if "allocate self infile arg st = (Inr outfile2, arg2, st2)" "j < length (variables outfile2)"
    using allocate_fresh [OF that] .
  show ?thesis using 1 2 3 4 by blast
qed

theorem input_unchanged_witness:
  "(1::nat) < nxt ex_store
   \<and> (\<exists>outfile st'. make3d ex_file [Fin 0.25, Fin 0.75] [Fin 1, Fin 0.5, Fin 0] ex_store
          = (Inr outfile, st')
        \<and> heap st' 1 = heap ex_store 1
        \<and> nxt ex_store \<le> data (snd (variables outfile ! 1)))
   \<and> (\<exists>outfile2 arg2 st2. allocate ex_vertical ex_file (Mapping ex_keys) ex_store
          = (Inr outfile2, arg2, st2)
        \<and> heap st2 1 = heap ex_store 1
        \<and> nxt ex_store \<le> data (snd (variables outfile2 ! 1)))"
proof -
  have a: "(1::nat) < nxt ex_store" by (simp add: ex_store_def)
  obtain outfile st' where
    m: "make3d ex_file [Fin 0.25, Fin 0.75] [Fin 1, Fin 0.5, Fin 0] ex_store = (Inr outfile, st')"
    and i: "1 < length (variables outfile)"
    by (simp add: make3d_def slice_LAY_def ex_file_def ex_store_def renumber_def
        alloc_arrays_def take_layers_def scale_arr_def Let_def)
  obtain outfile2 arg2 st2 where
    al: "allocate ex_vertical ex_file (Mapping ex_keys) ex_store = (Inr outfile2, arg2, st2)"
    and j: "1 < length (variables outfile2)"
    using ex_allocate by auto
  note t = input_unchanged [OF a, of ex_file "[Fin 0.25, Fin 0.75]" "[Fin 1, Fin 0.5, Fin 0]"
      "Inr outfile" st' outfile 1 ex_vertical "Mapping ex_keys" "Inr outfile2" arg2 st2 outfile2 1]
  have 1: "heap st' 1 = heap ex_store 1" using t m by blast
  have 2: "nxt ex_store \<le> data (snd (variables outfile ! 1))" using t m i by blast
  have 3: "heap st2 1 = heap ex_store 1" using t al by blast
  have 4: "nxt ex_store \<le> data (snd (variables outfile2 ! 1))" using t al j by blast
  show ?thesis using a m al 1 2 3 4 by blast
qed

section \<open>The sector assignment\<close>

lemma set_isnone: "set (isnone m) = {s. (s, None) \<in> set m}"
  by (induction m rule: isnone.induct) auto

lemma set_assigned_keys:
  "set (assigned_keys m) = {k. \<exists>s ks. (s, Some ks) \<in> set m \<and> k \<in> set ks}"
  by (induction m rule: assigned_keys.induct) auto

lemma set_all_keys:
  "set (all_keys f) = {k. \<exists>v. (k, v) \<in> set (variables f) \<and> ''LAY'' \<in> set (dimensions v)}"
  by (force simp: all_keys_def)

lemma set_unassigned_keys:
  "set (unassigned_keys f m) = set (all_keys f) - set (assigned_keys m)"
  by (auto simp: unassigned_keys_def)

lemma map_of_dict_set:
  "map_of (dict_set s v m) s'
     = (if s' = s then (if s \<in> fst ` set m then Some (Some v) else None) else map_of m s')"
  unfolding dict_set_def by (induction m) (force split: if_splits)+

lemma allocate_arg:
  assumes "allocate self infile (Mapping m) st = (res, arg', st')" and "isnone m = [sector]"
  shows "arg' = Mapping (dict_set sector (unassigned_keys infile m) m)"
  using assms(1)
  by (cases rule: allocate_cases)
    (simp_all add: as_mapping_def assms(2) caller_view_def assign_default_def)

text \<open>
  C7. With more than one sector whose variable list is \<^verbatim>\<open>None\<close>, \<open>allocate\<close> raises
  the \<^verbatim>\<open>ValueError\<close>. With exactly one, that sector has after the call the variables
  that carry the dimension \<^verbatim>\<open>LAY\<close> and are not listed for another sector, and the other
  sectors keep their lists.
\<close>

theorem allocate_default_sector:
  "(1 < length (isnone m) \<longrightarrow> fst (allocate self infile (Mapping m) st) = Inl ValueError)
   \<and> (isnone m = [sector] \<longrightarrow> allocate self infile (Mapping m) st = (res, arg', st') \<longrightarrow>
        (\<exists>m' vs. arg' = Mapping m' \<and> map_of m' sector = Some (Some vs)
           \<and> set vs = {k. \<exists>v. (k, v) \<in> set (variables infile) \<and> ''LAY'' \<in> set (dimensions v)}
                      - {k. \<exists>s ks. (s, Some ks) \<in> set m \<and> k \<in> set ks}
           \<and> (\<forall>s. s \<noteq> sector \<longrightarrow> map_of m' s = map_of m s)))"
proof -
  have a: "fst (allocate self infile (Mapping m) st) = Inl ValueError" if "1 < length (isnone m)"
    using that by (simp add: allocate_def as_mapping_def)
  have b: "\<exists>m' vs. arg' = Mapping m' \<and> map_of m' sector = Some (Some vs)
           \<and> set vs = {k. \<exists>v. (k, v) \<in> set (variables infile) \<and> ''LAY'' \<in> set (dimensions v)}
                      - {k. \<exists>s ks. (s, Some ks) \<in> set m \<and> k \<in> set ks}
           \<and> (\<forall>s. s \<noteq> sector \<longrightarrow> map_of m' s = map_of m s)"
    if one: "isnone m = [sector]" and al: "allocate self infile (Mapping m) st = (res, arg', st')"
  proof -
    have "sector \<in> set (isnone m)" using one by simp
    then have mem: "sector \<in> fst ` set m" by (force simp: set_isnone)
    have "arg' = Mapping (dict_set sector (unassigned_keys infile m) m)"
      by (rule allocate_arg [OF al one])
    moreover have "map_of (dict_set sector (unassigned_keys infile m) m) sector
        = Some (Some (unassigned_keys infile m))"
      using mem by (simp add: map_of_dict_set)
    moreover have "set (unassigned_keys infile m)
        = {k. \<exists>v. (k, v) \<in> set (variables infile) \<and> ''LAY'' \<in> set (dimensions v)}
           - {k. \<exists>s ks. (s, Some ks) \<in> set m \<and> k \<in> set ks}"
      by (simp add: set_unassigned_keys set_all_keys set_assigned_keys)
    moreover have "\<forall>s. s \<noteq> sector \<longrightarrow>
        map_of (dict_set sector (unassigned_keys infile m) m) s = map_of m s"
      by (simp add: map_of_dict_set)
    ultimately show ?thesis by blast
  qed
  show ?thesis using a b by blast
qed

theorem allocate_default_sector_witness:
  "1 < length (isnone [(''a'', None), (''b'', None :: string list option)])
   \<and> fst (allocate ex_vertical ex_file (Mapping [(''a'', None), (''b'', None)]) ex_store)
       = Inl ValueError
   \<and> isnone ex_keys = [''other'']
   \<and> (\<exists>m' vs. fst (snd (allocate ex_vertical ex_file (Mapping ex_keys) ex_store)) = Mapping m'
         \<and> map_of m' ''other'' = Some (Some vs) \<and> set vs = {''CO''}
         \<and> map_of m' ''onroad'' = Some (Some [''NOX'']))"
proof -
  have h1: "1 < length (isnone [(''a'', None), (''b'', None :: string list option)])" by simp
  have h2: "isnone ex_keys = [''other'']" by (simp add: ex_keys_def)
  obtain res arg' st' where
    al: "allocate ex_vertical ex_file (Mapping ex_keys) ex_store = (res, arg', st')"
    by (cases "allocate ex_vertical ex_file (Mapping ex_keys) ex_store")
  have s: "{k. \<exists>v. (k, v) \<in> set (variables ex_file) \<and> ''LAY'' \<in> set (dimensions v)}
             - {k. \<exists>s ks. (s, Some ks) \<in> set ex_keys \<and> k \<in> set ks} = {''CO''}"
    by (auto simp: ex_file_def ex_keys_def)
  have o: "map_of ex_keys ''onroad'' = Some (Some [''NOX''])" by (simp add: ex_keys_def)
  note t = allocate_default_sector [of "[(''a'', None), (''b'', None)]" ex_vertical ex_file ex_store]
    allocate_default_sector [of ex_keys ex_vertical ex_file ex_store "''other''" res arg' st']
  have a: "fst (allocate ex_vertical ex_file (Mapping [(''a'', None), (''b'', None)]) ex_store)
       = Inl ValueError"
    using t(1) h1 by blast
  have "\<exists>m' vs. arg' = Mapping m' \<and> map_of m' ''other'' = Some (Some vs) \<and> set vs = {''CO''}
         \<and> map_of m' ''onroad'' = Some (Some [''NOX''])"
    using t(2) h2 al s o by force
  then show ?thesis using h1 h2 a al by simp
qed

text \<open>
  C10. With exactly one sector whose variable list is \<^verbatim>\<open>None\<close>, \<open>allocate\<close> leaves
  the caller's dictionary changed: the entry of that sector holds the list of the
  unassigned eligible variables in place of \<^verbatim>\<open>None\<close>, whether the call returns or
  raises after the assignment.
\<close>

theorem allocate_mutates_mapping:
  assumes "isnone m = [sector]"
    and "allocate self infile (Mapping m) st = (res, arg', st')"
  shows "arg' = Mapping (dict_set sector (unassigned_keys infile m) m)
       \<and> arg' \<noteq> Mapping m
       \<and> (sector, None) \<in> set m
       \<and> map_of (dict_set sector (unassigned_keys infile m) m) sector
           = Some (Some (unassigned_keys infile m))"
proof -
  have "sector \<in> set (isnone m)" using assms(1) by simp
  then have mem: "(sector, None) \<in> set m" by (simp add: set_isnone)
  then have in_m: "sector \<in> fst ` set m" by force
  have new: "map_of (dict_set sector (unassigned_keys infile m) m) sector
           = Some (Some (unassigned_keys infile m))"
    using in_m by (simp add: map_of_dict_set)
  have "(sector, None) \<notin> set (dict_set sector (unassigned_keys infile m) m)"
    by (auto simp: dict_set_def split: if_splits)
  then have ne: "dict_set sector (unassigned_keys infile m) m \<noteq> m" using mem by auto
  show ?thesis using allocate_arg [OF assms(2) assms(1)] new ne mem by simp
qed

theorem allocate_mutates_mapping_witness:
  "isnone ex_keys = [''other'']
   \<and> fst (snd (allocate ex_vertical ex_file (Mapping ex_keys) ex_store))
       = Mapping (dict_set ''other'' (unassigned_keys ex_file ex_keys) ex_keys)
   \<and> fst (snd (allocate ex_vertical ex_file (Mapping ex_keys) ex_store)) \<noteq> Mapping ex_keys
   \<and> dict_set ''other'' (unassigned_keys ex_file ex_keys) ex_keys
       = [(''onroad'', Some [''NOX'']), (''other'', Some [''CO''])]"
proof -
  have h: "isnone ex_keys = [''other'']" by (simp add: ex_keys_def)
  obtain res arg' st' where
    al: "allocate ex_vertical ex_file (Mapping ex_keys) ex_store = (res, arg', st')"
    by (cases "allocate ex_vertical ex_file (Mapping ex_keys) ex_store")
  have d: "dict_set ''other'' (unassigned_keys ex_file ex_keys) ex_keys
       = [(''onroad'', Some [''NOX'']), (''other'', Some [''CO''])]"
    by (simp add: dict_set_def unassigned_keys_def all_keys_def ex_file_def ex_keys_def)
  from allocate_mutates_mapping [OF h al]
  have "arg' = Mapping (dict_set ''other'' (unassigned_keys ex_file ex_keys) ex_keys)"
    and "arg' \<noteq> Mapping ex_keys"
    by blast+
  then show ?thesis using h al d by simp
qed

section \<open>The resident profile\<close>



lemma fadd_zero_left [simp]: "fadd (Fin 0) x = x"
  by (cases x) simp_all


lemma interp_columns_names:
  "interp_columns cols iv x xp mk = Inr out \<Longrightarrow>
     list_all (\<lambda>(k, v). length v = length x) out"
proof (induction cols arbitrary: out)
  case Nil
  then show ?case by simp
next
  case (Cons kv cols)
  obtain k v where kv: "kv = (k, v)" by (cases kv)
  from Cons.prems obtain col out' where
    col: "interp_column iv x xp v = Inr col"
    and rest: "interp_columns cols iv x xp mk = Inr out'"
    and out: "out = (k, if k \<notin> set mk then renormalize col else col) # out'"
    by (auto simp: kv split: sum.splits)
  have "length col = length x"
    using col by (auto simp: interp_column_def np_interp_def split: if_splits)
  then show ?case using Cons.IH [OF rest] by (simp add: out renormalize_def)
qed

lemma set_column_lengths:
  "list_all (\<lambda>(k, v). length v = n) cols \<Longrightarrow> length vals = n \<Longrightarrow>
     list_all (\<lambda>(k, v). length v = n) (set_column key vals cols)"
  by (auto simp: set_column_def list_all_iff split: if_splits)

lemma interp_va_shape:
  assumes "interp_va df vg vt ps mk = Inr out"
  shows "index out = [0..<nrows out] \<and> nrows out = length (drop 1 vg)
       \<and> list_all (\<lambda>(k, v). length v = nrows out) (columns out)"
proof -
  from assms obtain p where P: "map_of (columns df) ''Pressure'' = Some p"
    by (auto simp: interp_va_def Let_def split: option.splits)
  define xp0 where "xp0 = norm_coord p vt ps"
  have ne: "xp0 \<noteq> []"
    using assms P by (auto simp: interp_va_def Let_def xp0_def split: if_splits)
  from assms obtain cs where
    cs: "interp_columns (columns df) (flt (last xp0) (hd xp0)) (drop 1 vg)
           (if flt (last xp0) (hd xp0) then rev xp0 else xp0) (default_metakeys mk) = Inr cs"
    and out: "out = \<lparr>index = [0..<length (drop 1 vg)],
                     columns = set_column ''Sigma'' (drop 1 vg) cs\<rparr>"
    unfolding interp_va_eq [OF P xp0_def ne] by (auto split: sum.splits)
  show ?thesis
    using set_column_lengths [OF interp_columns_names [OF cs] refl, of "''Sigma''"]
    by (simp add: out nrows_def)
qed







lemma Vertical_init_Inr:
  assumes "Vertical_init csv ovg ovt pk sk cvt mka ps prune = Inr self"
  shows "\<exists>out used. interp_va (indf self) (drop 1 ovg) ovt ps (Some (metakeys self)) = Inr out
       \<and> layerused (layer1 out) (metakeys self) prune = Inr used
       \<and> outdf self = select_rows used (layer1 out)
       \<and> outvglvls self = ovg"
  using assms
  by (auto simp: Vertical_init_def Let_def split: sum.splits if_splits)





section \<open>The vertical-coordinate metadata\<close>












text \<open>
  Lines 230 to 233 pass \<^verbatim>\<open>outvglvls[1:]\<close> to \<open>interp_va\<close>, which leaves the first
  entry of its argument out again: the interpolated profile has a row for each edge
  after the second one.
\<close>

lemma interpolated_rows:
  assumes "Vertical_init csv ovg ovt pk sk cvt mka ps prune = Inr self"
  shows "\<exists>out. interp_va (indf self) (drop 1 ovg) ovt ps (Some (metakeys self)) = Inr out
       \<and> nrows out = length ovg - 2
       \<and> map_of (columns out) ''Sigma'' = Some (drop 2 ovg)"
proof -
  from Vertical_init_Inr [OF assms] obtain out where
    out: "interp_va (indf self) (drop 1 ovg) ovt ps (Some (metakeys self)) = Inr out"
    by blast
  have n: "nrows out = length ovg - 2" using interp_va_shape [OF out] by simp
  from out obtain cs where "columns out = set_column ''Sigma'' (drop 1 (drop 1 ovg)) cs"
    by (auto simp: interp_va_def Let_def split: option.splits if_splits sum.splits)
  then have "map_of (columns out) ''Sigma'' = Some (drop 2 ovg)"
    by (simp add: map_of_set_column numeral_2_eq_2)
  then show ?thesis using out n by blast
qed




end
